theory Spec2Isabelle
  imports Complex_Main
begin

section \<open>Constants of the module\<close>

definition PROCESSING_WIDTH :: int where "PROCESSING_WIDTH = 640"
definition PROCESSING_HEIGHT :: int where "PROCESSING_HEIGHT = 640"
definition GRID_SIZE :: int where "GRID_SIZE = 300"

section \<open>StreamIDCounter: the process-wide identifier allocator\<close>

text \<open>
  The class keeps two class attributes, \<open>_instance\<close> (initially None) and \<open>_counter\<close>
  (0). \<open>__new__\<close> creates the single instance on first use and returns it ever after.
  \<open>get_next_id\<close> reads \<open>self._counter\<close> (the instance attribute when it exists, the
  class attribute otherwise) and assigns \<open>self._counter\<close>, which creates or updates the
  instance attribute; the class attribute itself is never written.
\<close>

record counter_instance =
  inst_counter :: "int option"

record StreamIDCounter =
  cls_instance :: "counter_instance option"
  cls_counter :: int

definition StreamIDCounter_class :: StreamIDCounter where
  "StreamIDCounter_class = \<lparr>cls_instance = None, cls_counter = 0\<rparr>"

definition new_StreamIDCounter :: "StreamIDCounter \<Rightarrow> StreamIDCounter" where
  "new_StreamIDCounter c =
     (case cls_instance c of
        None \<Rightarrow> c\<lparr>cls_instance := Some \<lparr>inst_counter = None\<rparr>\<rparr>
      | Some i \<Rightarrow> c)"

definition read_counter :: "StreamIDCounter \<Rightarrow> int" where
  "read_counter c =
     (case cls_instance c of
        None \<Rightarrow> cls_counter c
      | Some i \<Rightarrow> (case inst_counter i of None \<Rightarrow> cls_counter c | Some n \<Rightarrow> n))"

definition write_counter :: "int \<Rightarrow> StreamIDCounter \<Rightarrow> StreamIDCounter" where
  "write_counter n c = c\<lparr>cls_instance := Some \<lparr>inst_counter = Some n\<rparr>\<rparr>"

definition get_next_id :: "StreamIDCounter \<Rightarrow> int \<times> StreamIDCounter" where
  "get_next_id c =
     (let current_id = read_counter c;
          c' = write_counter (read_counter c + 1) c
      in (current_id, c'))"

subsection \<open>Two constructions running as threads\<close>

text \<open>
  \<open>StreamIDCounter().get_next_id()\<close> takes no lock. Run by a thread it is a sequence of
  statements, between which another thread may be scheduled: the call of the class
  (\<open>__new__\<close>), line 27 (\<open>current_id = self._counter\<close>), line 28 (\<open>self._counter += 1\<close>)
  and the return of \<open>current_id\<close>. A schedule names the thread that takes the next step.
\<close>

datatype ctor_pc = AtCall | AtLine27 | AtLine28 int | Done int

fun ctor_step :: "ctor_pc \<Rightarrow> StreamIDCounter \<Rightarrow> ctor_pc \<times> StreamIDCounter" where
  "ctor_step AtCall c = (AtLine27, new_StreamIDCounter c)"
| "ctor_step AtLine27 c = (AtLine28 (read_counter c), c)"
| "ctor_step (AtLine28 current_id) c = (Done current_id, write_counter (read_counter c + 1) c)"
| "ctor_step (Done current_id) c = (Done current_id, c)"

fun run_schedule :: "nat list \<Rightarrow> ctor_pc list \<Rightarrow> StreamIDCounter \<Rightarrow> ctor_pc list \<times> StreamIDCounter" where
  "run_schedule [] ts c = (ts, c)"
| "run_schedule (i # sched) ts c =
     (if i < length ts
      then (case ctor_step (ts ! i) c of (pc', c') \<Rightarrow> run_schedule sched (ts[i := pc']) c')
      else run_schedule sched ts c)"

section \<open>Outbound messages\<close>

text \<open>
  Messages are the dictionaries handed to \<open>json.dumps\<close>: integers, strings, lists and
  objects with their keys in insertion order. \<open>dumps\<close> renders them with the default
  separators of \<open>json.dumps\<close> (comma-space and colon-space). The only strings the module
  serialises are fixed ASCII keys and the word heartbeat, so escaping is not needed.
\<close>

datatype json = JInt int | JStr string | JList "json list" | JObj "(string \<times> json) list"

fun digit_char :: "nat \<Rightarrow> char" where
  "digit_char n = char_of (48 + n)"

fun str_nat :: "nat \<Rightarrow> string" where
  "str_nat n = (if n < 10 then [digit_char n] else str_nat (n div 10) @ [digit_char (n mod 10)])"

definition str_int :: "int \<Rightarrow> string" where
  "str_int i = (if i < 0 then CHR ''-'' # str_nat (nat (- i)) else str_nat (nat i))"

fun join_strings :: "string \<Rightarrow> string list \<Rightarrow> string" where
  "join_strings sep [] = []"
| "join_strings sep [x] = x"
| "join_strings sep (x # y # ys) = x @ sep @ join_strings sep (y # ys)"

definition quoted :: "string \<Rightarrow> string" where
  "quoted s = CHR 0x22 # s @ [CHR 0x22]"

fun dumps :: "json \<Rightarrow> string" where
  "dumps (JInt i) = str_int i"
| "dumps (JStr s) = quoted s"
| "dumps (JList xs) = ''['' @ join_strings '', '' (map dumps xs) @ '']''"
| "dumps (JObj kvs) =
     ''{'' @ join_strings '', '' (map (\<lambda>kv. quoted (fst kv) @ '': '' @ dumps (snd kv)) kvs) @ ''}''"

definition heartbeat_message :: json where
  "heartbeat_message = JObj [(''event'', JStr ''heartbeat'')]"

section \<open>WebSocketDetector\<close>

text \<open>
  What a run does to the outside world is recorded as a trace: the attempt number printed
  at the start of a connection attempt, the lock being taken and released, a connection
  object being created, a sleep, a send on a connection (with its text and whether it
  succeeded), a message dropped for lack of a connection, a connection closed.
  Connection objects are named by the order of their creation.
\<close>

datatype event =
    ConnectAttempt nat
  | LockAcquire
  | LockRelease
  | Created nat
  | Sleep nat
  | WsSend nat string bool
  | Dropped
  | Closed nat

record detector =
  stream_id :: int
  ws :: "nat option"
  stop_processing :: bool
  message_queue :: "json list"
  next_handle :: nat
  trace :: "event list"

definition emit :: "event list \<Rightarrow> detector \<Rightarrow> detector" where
  "emit es s = s\<lparr>trace := trace s @ es\<rparr>"

definition detector_init :: "StreamIDCounter \<Rightarrow> detector \<times> StreamIDCounter" where
  "detector_init c =
     (case get_next_id (new_StreamIDCounter c) of
        (i, c') \<Rightarrow>
          (\<lparr>stream_id = i, ws = None, stop_processing = False, message_queue = [],
            next_handle = 0, trace = []\<rparr>, c'))"

text \<open>\<open>__del__\<close>: set the stop flag and close the connection, if any, under the lock.\<close>

definition detector_del :: "detector \<Rightarrow> detector" where
  "detector_del s =
     (let s1 = s\<lparr>stop_processing := True\<rparr>
      in case ws s1 of
           None \<Rightarrow> s1
         | Some h \<Rightarrow> emit [LockAcquire, Closed h, LockRelease] s1)"

subsection \<open>Connecting\<close>

text \<open>
  The outcome of one pass through the \<open>try\<close> block of \<open>_connect_websocket\<close> is decided
  by the network: \<open>create_connection\<close> raises, or it returns and \<open>settimeout\<close> raises, or
  both return. A run of the loop is given the outcomes of its attempts as a list. A loop
  that has used up the list and has not left is still running: \<open>Pending\<close>, with the state
  reached so far.
\<close>

datatype conn_result = CreateFails | SettimeoutFails | Succeeds

datatype 'a run = Returned 'a | Pending 'a

fun run_state :: "'a run \<Rightarrow> 'a" where
  "run_state (Returned x) = x"
| "run_state (Pending x) = x"


fun map_run :: "('a \<Rightarrow> 'b) \<Rightarrow> 'a run \<Rightarrow> 'b run" where
  "map_run f (Returned x) = Returned (f x)"
| "map_run f (Pending x) = Pending (f x)"

definition backoff_delay :: "nat \<Rightarrow> nat" where
  "backoff_delay attempt = min (2 ^ (attempt div 2)) 10"

fun connect_loop :: "conn_result list \<Rightarrow> nat \<Rightarrow> detector \<Rightarrow> (nat \<times> detector) run" where
  "connect_loop [] attempt s =
     (if stop_processing s then Returned (attempt, s) else Pending (attempt, s))"
| "connect_loop (r # rs) attempt s =
     (if stop_processing s then Returned (attempt, s)
      else
        let attempt = attempt + 1;
            s1 = emit [ConnectAttempt attempt, LockAcquire] s;
            h = next_handle s1;
            s2 = emit [Created h] (s1\<lparr>ws := Some h, next_handle := h + 1\<rparr>)
        in case r of
             Succeeds \<Rightarrow> Returned (0, emit [LockRelease] s2)
           | SettimeoutFails \<Rightarrow>
               connect_loop rs attempt (emit [LockRelease, Sleep (backoff_delay attempt)] s2)
           | CreateFails \<Rightarrow>
               connect_loop rs attempt (emit [LockRelease, Sleep (backoff_delay attempt)] s1))"

definition connect_websocket :: "conn_result list \<Rightarrow> detector \<Rightarrow> detector run" where
  "connect_websocket rs s = map_run snd (connect_loop rs 0 s)"

text \<open>The events a run added to the trace, and the sleeps among them.\<close>

definition new_events :: "detector \<Rightarrow> detector \<Rightarrow> event list" where
  "new_events s s' = drop (length (trace s)) (trace s')"

fun sleeps :: "event list \<Rightarrow> nat list" where
  "sleeps [] = []"
| "sleeps (Sleep d # es) = d # sleeps es"
| "sleeps (e # es) = sleeps es"

text \<open>Each sleep paired with the number of the attempt it follows.\<close>

fun attempt_delays :: "nat \<Rightarrow> event list \<Rightarrow> (nat \<times> nat) list" where
  "attempt_delays n [] = []"
| "attempt_delays n (ConnectAttempt m # es) = attempt_delays m es"
| "attempt_delays n (Sleep d # es) = (n, d) # attempt_delays n es"
| "attempt_delays n (e # es) = attempt_delays n es"

definition failures :: "conn_result list \<Rightarrow> nat" where
  "failures rs = length (takeWhile (\<lambda>r. r \<noteq> Succeeds) rs)"

subsection \<open>Heartbeat and the supervisory loop\<close>

text \<open>
  \<open>self.ws and self.ws.connected\<close>: the attribute \<open>connected\<close> belongs to the
  connection object and is set by the websocket library; its value at the moment it is
  read is an input. It is not read when \<open>self.ws\<close> is None.
\<close>

definition live :: "detector \<Rightarrow> bool \<Rightarrow> bool" where
  "live s is_connected = (case ws s of None \<Rightarrow> False | Some h \<Rightarrow> is_connected)"

definition send_heartbeat :: "bool \<Rightarrow> bool \<Rightarrow> detector \<Rightarrow> detector" where
  "send_heartbeat is_connected ok s =
     (case ws s of
        None \<Rightarrow> s
      | Some h \<Rightarrow>
          if \<not> is_connected then s
          else if ok
          then emit [LockAcquire, WsSend h (dumps heartbeat_message) True, LockRelease] s
          else (emit [LockAcquire, WsSend h (dumps heartbeat_message) False, LockRelease,
                      LockAcquire, LockRelease] s)\<lparr>ws := None\<rparr>)"

record tick_env =
  tick_connected :: bool
  tick_connect :: "conn_result list"
  hb_connected :: bool
  hb_send_ok :: bool

text \<open>One evaluation of the loop condition of \<open>_manage_websocket\<close> and, if it holds, the body.\<close>

definition manage_iteration :: "tick_env \<Rightarrow> detector \<Rightarrow> detector run" where
  "manage_iteration env s =
     (if stop_processing s then Returned s
      else if \<not> live s (tick_connected env)
      then (case connect_websocket (tick_connect env) s of
              Pending s' \<Rightarrow> Pending s'
            | Returned s' \<Rightarrow> Returned (emit [Sleep 2] s'))
      else Returned (emit [Sleep 2] (send_heartbeat (hb_connected env) (hb_send_ok env) s)))"

subsection \<open>The outbound queue\<close>

text \<open>
  \<open>queue.Queue(maxsize=100)\<close> of the standard library: \<open>put_nowait\<close> raises \<open>Full\<close> when
  the queue holds \<open>maxsize\<close> items and appends on the right otherwise; \<open>get\<close> takes the
  leftmost item and, with a timeout, raises \<open>Empty\<close> when none arrives.
\<close>

datatype queue_error = Full | Empty

definition maxsize :: nat where "maxsize = 100"

definition put_nowait :: "'a \<Rightarrow> 'a list \<Rightarrow> queue_error + 'a list" where
  "put_nowait item q = (if maxsize \<le> length q then Inl Full else Inr (q @ [item]))"

definition queue_get :: "'a list \<Rightarrow> queue_error + ('a \<times> 'a list)" where
  "queue_get q = (case q of [] \<Rightarrow> Inl Empty | item # q' \<Rightarrow> Inr (item, q'))"

subsection \<open>Sending\<close>





subsection \<open>Frame intake\<close>

text \<open>
  A region of interest as \<open>process_frame\<close> uses it: \<open>rect()\<close>, absent when the object has
  no such method (the call then raises AttributeError), and the attribute \<open>object_id\<close>,
  which may be missing, present but not callable, or a method returning an identifier or
  None. Rectangle components are integers. The source computes the centre and the grid
  position in floating point; here the arithmetic is exact, over the rationals.
\<close>

datatype object_id_attr = NoAttribute | NotCallable | Callable "int option"

record region =
  rect :: "(int \<times> int \<times> int \<times> int) option"
  object_id :: object_id_attr

type_synonym frame = "region list"

datatype py_error = AttributeError

text \<open>\<open>int()\<close> of a float truncates towards zero.\<close>

definition py_int :: "rat \<Rightarrow> int" where
  "py_int q = (if q < 0 then - \<lfloor>- q\<rfloor> else \<lfloor>q\<rfloor>)"

fun regions_loop :: "region list \<Rightarrow> (rat \<times> rat) list \<Rightarrow> py_error + (rat \<times> rat) list" where
  "regions_loop [] detection_dots = Inr detection_dots"
| "regions_loop (roi # rois) detection_dots =
     (case rect roi of
        None \<Rightarrow> Inl AttributeError
      | Some (x, y, w, h) \<Rightarrow>
          (case object_id roi of
             NoAttribute \<Rightarrow> regions_loop rois detection_dots
           | NotCallable \<Rightarrow> regions_loop rois detection_dots
           | Callable None \<Rightarrow> regions_loop rois detection_dots
           | Callable (Some obj_id) \<Rightarrow>
               let center_x = (of_int x + of_int w / 2) / of_int PROCESSING_WIDTH;
                   center_y = (of_int y + of_int h / 2) / of_int PROCESSING_HEIGHT;
                   grid_x = min (max (center_x * of_int GRID_SIZE) 0) (of_int GRID_SIZE);
                   grid_y = min (max (center_y * of_int GRID_SIZE) 0) (of_int GRID_SIZE)
               in regions_loop rois (detection_dots @ [(grid_x, grid_y)])))"

definition detection_message :: "int \<Rightarrow> (rat \<times> rat) list \<Rightarrow> json" where
  "detection_message sid detection_dots =
     JObj [(''camera_id'', JInt sid),
           (''detections'',
              JList (map (\<lambda>(x, y). JObj [(''x'', JInt (py_int x)), (''y'', JInt (py_int y))])
                       detection_dots))]"

definition process_frame :: "frame \<Rightarrow> detector \<Rightarrow> (py_error + bool) \<times> detector" where
  "process_frame frame s =
     (case regions_loop frame [] of
        Inl e \<Rightarrow> (Inl e, s)
      | Inr detection_dots \<Rightarrow>
          if detection_dots \<noteq> []
          then (case put_nowait (detection_message (stream_id s) detection_dots) (message_queue s) of
                  Inl e \<Rightarrow> (Inr True, s)
                | Inr q \<Rightarrow> (Inr True, s\<lparr>message_queue := q\<rparr>))
          else (Inr True, s))"

subsection \<open>Runs of a detector and of a process\<close>




text \<open>A process: the class state of the allocator and the detectors built so far.\<close>

record process =
  counter_class :: StreamIDCounter
  detectors :: "detector list"

definition process_start :: process where
  "process_start = \<lparr>counter_class = StreamIDCounter_class, detectors = []\<rparr>"

datatype process_op = Construct | Destroy nat

fun process_step :: "process_op \<Rightarrow> process \<Rightarrow> process" where
  "process_step Construct p =
     (case detector_init (counter_class p) of
        (d, c') \<Rightarrow> \<lparr>counter_class = c', detectors = detectors p @ [d]\<rparr>)"
| "process_step (Destroy i) p =
     (if i < length (detectors p)
      then p\<lparr>detectors := (detectors p)[i := detector_del (detectors p ! i)]\<rparr>
      else p)"

definition run_process :: "process_op list \<Rightarrow> process \<Rightarrow> process" where
  "run_process ops p = fold process_step ops p"

text \<open>The detector built first in a fresh process.\<close>

definition detector0 :: detector where
  "detector0 = fst (detector_init StreamIDCounter_class)"

text \<open>
  For comparison: the loop of \<open>_connect_websocket\<close> with the assignment \<open>attempt = 0\<close>
  of line 73 left out, so that the counter keeps its value when the loop is left.
\<close>

fun connect_loop_no_reset :: "conn_result list \<Rightarrow> nat \<Rightarrow> detector \<Rightarrow> (nat \<times> detector) run" where
  "connect_loop_no_reset [] attempt s =
     (if stop_processing s then Returned (attempt, s) else Pending (attempt, s))"
| "connect_loop_no_reset (r # rs) attempt s =
     (if stop_processing s then Returned (attempt, s)
      else
        let attempt = attempt + 1;
            s1 = emit [ConnectAttempt attempt, LockAcquire] s;
            h = next_handle s1;
            s2 = emit [Created h] (s1\<lparr>ws := Some h, next_handle := h + 1\<rparr>)
        in case r of
             Succeeds \<Rightarrow> Returned (attempt, emit [LockRelease] s2)
           | SettimeoutFails \<Rightarrow>
               connect_loop_no_reset rs attempt
                 (emit [LockRelease, Sleep (backoff_delay attempt)] s2)
           | CreateFails \<Rightarrow>
               connect_loop_no_reset rs attempt
                 (emit [LockRelease, Sleep (backoff_delay attempt)] s1))"

text \<open>Frames taken in one after the other by the caller's thread.\<close>

definition intake_all :: "frame list \<Rightarrow> detector \<Rightarrow> detector" where
  "intake_all frames s = fold (\<lambda>f s'. snd (process_frame f s')) frames s"

section \<open>The normalisation as the specification words it\<close>

text \<open>
  A region is valid when it has an identifier accessor that resolves to an identifier.
  For a valid region: the centre of the rectangle on one axis, divided by the processing
  resolution, scaled to the grid size 300, clamped to the interval from 0 to 300; the
  payload carries its truncation to an integer.
\<close>

definition has_identifier :: "region \<Rightarrow> bool" where
  "has_identifier r = (case object_id r of Callable (Some i) \<Rightarrow> True | _ \<Rightarrow> False)"

definition spec_grid_axis :: "int \<Rightarrow> int \<Rightarrow> int \<Rightarrow> rat" where
  "spec_grid_axis pos extent resolution =
     (let center = of_int pos + of_int extent / 2;
          normalized = center / of_int resolution;
          scaled = normalized * 300
      in min (max scaled 0) 300)"

definition spec_grid_point :: "int \<times> int \<times> int \<times> int \<Rightarrow> rat \<times> rat" where
  "spec_grid_point r = (case r of (x, y, w, h) \<Rightarrow> (spec_grid_axis x w 640, spec_grid_axis y h 640))"


definition spec_points :: "frame \<Rightarrow> (rat \<times> rat) list" where
  "spec_points frame =
     List.map_filter
       (\<lambda>r. if has_identifier r then map_option spec_grid_point (rect r) else None) frame"

section \<open>Example inputs\<close>

text \<open>
  A frame with one region, the rectangle (x=100, y=100, w=50, h=50) with identifier 7; a
  frame whose only region has no identifier accessor; a frame whose only region has
  neither a rectangle accessor nor an identifier accessor; and the first detector of a
  process after a hundred frames have been taken in with no message sent.
\<close>

definition example_frame :: frame where
  "example_frame = [\<lparr>rect = Some (100, 100, 50, 50), object_id = Callable (Some 7)\<rparr>]"

definition anonymous_frame :: frame where
  "anonymous_frame = [\<lparr>rect = Some (100, 100, 50, 50), object_id = NoAttribute\<rparr>]"

definition broken_frame :: frame where
  "broken_frame = [\<lparr>rect = None, object_id = NoAttribute\<rparr>]"

definition saturated_detector :: detector where
  "saturated_detector = intake_all (replicate 100 example_frame) detector0"

text \<open>
  A hundred and one frames, each with one identified region, told apart by the x of the
  rectangle; the first detector once its first connection attempt has succeeded; a tick
  and a failing tick of the supervisory loop that find the connection alive.
\<close>

definition numbered_frames :: "frame list" where
  "numbered_frames =
     map (\<lambda>i. [\<lparr>rect = Some (int i, 0, 10, 10), object_id = Callable (Some 0)\<rparr>]) [0..<101]"

definition connected_detector :: detector where
  "connected_detector = run_state (connect_websocket [Succeeds] detector0)"

definition failing_tick :: tick_env where
  "failing_tick = \<lparr>tick_connected = True, tick_connect = [], hb_connected = True, hb_send_ok = False\<rparr>"

definition reconnecting_tick :: tick_env where
  "reconnecting_tick =
     \<lparr>tick_connected = True, tick_connect = [Succeeds], hb_connected = True, hb_send_ok = True\<rparr>"

text \<open>
  The invariant of a process: the detectors built so far carry the identifiers 0, 1, 2, ...
  in the order of their construction, and the counter stands at their number.
\<close>

definition ids_in_order :: "process \<Rightarrow> bool" where
  "ids_in_order p \<longleftrightarrow>
     map stream_id (detectors p) = map int [0..<length (detectors p)] \<and>
     read_counter (counter_class p) = int (length (detectors p))"

section \<open>Reading a trace\<close>

text \<open>
  A trace is read from the left. \<open>after_failure\<close> keeps the handles created since the
  last failed send (None while no send has failed); \<open>sends_fresh\<close> holds when every
  send that comes after a failed send uses one of them. \<open>fresh_bound\<close> is one more than
  the last handle created; \<open>handles_fresh\<close> holds when every creation brings a handle
  not seen before and every send uses a handle created earlier. A detector is consistent
  when its trace has both properties and its handle, if any, is known and was created
  since the last failed send.
\<close>

fun after_failure :: "nat list option \<Rightarrow> event list \<Rightarrow> nat list option" where
  "after_failure g [] = g"
| "after_failure g (Created h # es) = after_failure (map_option (\<lambda>c. h # c) g) es"
| "after_failure g (WsSend h p ok # es) = after_failure (if ok then g else Some []) es"
| "after_failure g (e # es) = after_failure g es"









section \<open>Properties\<close>

lemma sleeps_append: "sleeps (xs @ ys) = sleeps xs @ sleeps ys"
  by (induction xs rule: sleeps.induct) simp_all

lemma trace_emit: "trace (emit es s) = trace s @ es"
  by (simp add: emit_def)

lemma stop_emit: "stop_processing (emit es s) = stop_processing s"
  by (simp add: emit_def)

lemma run_state_map_run: "run_state (map_run f r) = f (run_state r)"
  by (cases r) simp_all

lemma detector0_simps:
  "stop_processing detector0 = False" "trace detector0 = []" "ws detector0 = None"
  "message_queue detector0 = []" "next_handle detector0 = 0" "stream_id detector0 = 0"
  by (simp_all add: detector0_def detector_init_def get_next_id_def new_StreamIDCounter_def
      StreamIDCounter_class_def read_counter_def write_counter_def Let_def)

subsection \<open>Backoff between connection attempts\<close>

lemma upt_shift: "[Suc a..<Suc a + Suc n] = Suc a # [Suc (Suc a)..<Suc (Suc a) + n]"
  by (simp add: upt_conv_Cons del: upt_Suc)

lemma connect_loop_stopped: "stop_processing s \<Longrightarrow> connect_loop rs a s = Returned (a, s)"
  by (cases rs) simp_all

text \<open>
  A run of the loop entered with the counter at \<open>a\<close> and the stop flag down extends the
  trace; the sleeps it adds are those of attempts \<open>a + 1\<close>, \<open>a + 2\<close>, ... up to the last
  attempt that failed.
\<close>

lemma connect_loop_trace:
  "\<not> stop_processing s \<Longrightarrow>
   \<exists>es. trace (snd (run_state (connect_loop rs a s))) = trace s @ es \<and>
        attempt_delays n es = map (\<lambda>k. (k, backoff_delay k)) [Suc a..<Suc a + failures rs] \<and>
        sleeps es = map backoff_delay [Suc a..<Suc a + failures rs]"
proof (induction rs arbitrary: a s n)
  case Nil
  then show ?case by (simp add: failures_def)
next
  case (Cons r rs)
  show ?case
  proof (cases r)
    case Succeeds
    with Cons.prems show ?thesis
      by (simp add: failures_def Let_def trace_emit emit_def)
  next
    case CreateFails
    let ?s' = "emit [LockRelease, Sleep (backoff_delay (Suc a))]
                 (emit [ConnectAttempt (Suc a), LockAcquire] s)"
    have ns: "\<not> stop_processing ?s'" using Cons.prems by (simp add: stop_emit)
    from Cons.IH[OF ns, of "Suc a" "Suc a"] obtain es where
      es: "trace (snd (run_state (connect_loop rs (Suc a) ?s'))) = trace ?s' @ es"
          "attempt_delays (Suc a) es =
             map (\<lambda>k. (k, backoff_delay k)) [Suc (Suc a)..<Suc (Suc a) + failures rs]"
          "sleeps es = map backoff_delay [Suc (Suc a)..<Suc (Suc a) + failures rs]"
      by blast
    have f: "failures (r # rs) = Suc (failures rs)"
      using CreateFails by (simp add: failures_def)
    have run: "connect_loop (r # rs) a s = connect_loop rs (Suc a) ?s'"
      using Cons.prems CreateFails by (simp add: Let_def)
    show ?thesis
      unfolding run f upt_shift
      apply (rule exI[of _ "[ConnectAttempt (Suc a), LockAcquire, LockRelease,
                             Sleep (backoff_delay (Suc a))] @ es"])
      using es by (simp add: trace_emit del: upt_Suc)
  next
    case SettimeoutFails
    let ?s1 = "emit [ConnectAttempt (Suc a), LockAcquire] s"
    let ?s' = "emit [LockRelease, Sleep (backoff_delay (Suc a))]
                 (emit [Created (next_handle ?s1)]
                    (?s1\<lparr>ws := Some (next_handle ?s1), next_handle := next_handle ?s1 + 1\<rparr>))"
    have ns: "\<not> stop_processing ?s'" using Cons.prems by (simp add: emit_def)
    from Cons.IH[OF ns, of "Suc a" "Suc a"] obtain es where
      es: "trace (snd (run_state (connect_loop rs (Suc a) ?s'))) = trace ?s' @ es"
          "attempt_delays (Suc a) es =
             map (\<lambda>k. (k, backoff_delay k)) [Suc (Suc a)..<Suc (Suc a) + failures rs]"
          "sleeps es = map backoff_delay [Suc (Suc a)..<Suc (Suc a) + failures rs]"
      by blast
    have f: "failures (r # rs) = Suc (failures rs)"
      using SettimeoutFails by (simp add: failures_def)
    have run: "connect_loop (r # rs) a s = connect_loop rs (Suc a) ?s'"
      using Cons.prems SettimeoutFails by (simp add: Let_def)
    show ?thesis
      unfolding run f upt_shift
      apply (rule exI[of _ "[ConnectAttempt (Suc a), LockAcquire, Created (next_handle s),
                             LockRelease, Sleep (backoff_delay (Suc a))] @ es"])
      using es by (simp add: trace_emit emit_def del: upt_Suc)
  qed
qed

lemma backoff_le: "backoff_delay n \<le> 10"
  by (simp add: backoff_delay_def)

lemma backoff_mono: "m \<le> n \<Longrightarrow> backoff_delay m \<le> backoff_delay n"
  unfolding backoff_delay_def
  by (meson div_le_mono min.mono order_refl one_le_numeral power_increasing)

text \<open>
  C1. In a call of \<open>_connect_websocket\<close>, the sleeps are those of the failed attempts
  1, 2, ... in order, and the sleep after failed attempt \<open>n\<close> lasts
  \<open>min (2 ^ (n div 2)) 10\<close> seconds (none when the stop flag is already up). As a function
  of \<open>n\<close> the delay never exceeds 10 and never decreases.
\<close>

theorem backoff_delay_schedule:
  "attempt_delays 0 (new_events s (run_state (connect_websocket rs s))) =
     map (\<lambda>n. (n, min (2 ^ (n div 2)) 10))
       [1..<Suc (if stop_processing s then 0 else failures rs)]
   \<and> (\<forall>n. backoff_delay n = min (2 ^ (n div 2)) 10 \<and> backoff_delay n \<le> 10)
   \<and> (\<forall>m n. m \<le> n \<longrightarrow> backoff_delay m \<le> backoff_delay n)"
proof (intro conjI allI impI)
  show "attempt_delays 0 (new_events s (run_state (connect_websocket rs s))) =
     map (\<lambda>n. (n, min (2 ^ (n div 2)) 10))
       [1..<Suc (if stop_processing s then 0 else failures rs)]"
  proof (cases "stop_processing s")
    case True
    then show ?thesis
      by (simp add: connect_websocket_def connect_loop_stopped new_events_def)
  next
    case False
    from connect_loop_trace[OF False, of rs 0 0] obtain es where
      es: "trace (snd (run_state (connect_loop rs 0 s))) = trace s @ es"
          "attempt_delays 0 es = map (\<lambda>k. (k, backoff_delay k)) [Suc 0..<Suc 0 + failures rs]"
      by blast
    have "new_events s (run_state (connect_websocket rs s)) = es"
      using es(1) by (simp add: connect_websocket_def run_state_map_run new_events_def)
    then show ?thesis
      using es(2) False by (simp add: backoff_delay_def del: upt_Suc)
  qed
next
  fix n show "backoff_delay n = min (2 ^ (n div 2)) 10"
    by (simp add: backoff_delay_def)
next
  fix n show "backoff_delay n \<le> 10"
    by (rule backoff_le)
next
  fix m n :: nat
  assume "m \<le> n"
  then show "backoff_delay m \<le> backoff_delay n"
    by (rule backoff_mono)
qed

theorem backoff_delay_schedule_witness:
  "attempt_delays 0 (new_events detector0
      (run_state (connect_websocket [CreateFails, SettimeoutFails, CreateFails, Succeeds] detector0)))
     = [(1, 1), (2, 2), (3, 2)]
   \<and> (3::nat) \<le> 8 \<and> backoff_delay 3 \<le> backoff_delay 8 \<and> backoff_delay 8 = 10"
  using backoff_delay_schedule [of detector0 "[CreateFails, SettimeoutFails, CreateFails, Succeeds]"]
  by (simp add: detector0_simps failures_def upt_conv_Cons backoff_delay_def del: upt_Suc)

subsection \<open>Identifier allocation\<close>

lemma read_counter_new: "read_counter (new_StreamIDCounter c) = read_counter c"
  by (simp add: new_StreamIDCounter_def read_counter_def split: option.splits)

lemma get_next_id_fst: "fst (get_next_id c) = read_counter c"
  by (simp add: get_next_id_def Let_def)

lemma get_next_id_snd: "read_counter (snd (get_next_id c)) = read_counter c + 1"
  by (simp add: get_next_id_def Let_def write_counter_def read_counter_def)

lemma detector_init_id: "stream_id (fst (detector_init c)) = read_counter c"
  by (simp add: detector_init_def split_def get_next_id_fst read_counter_new)

lemma detector_init_counter: "read_counter (snd (detector_init c)) = read_counter c + 1"
  by (simp add: detector_init_def split_def get_next_id_snd read_counter_new)

lemma stream_id_del: "stream_id (detector_del d) = stream_id d"
  by (simp add: detector_del_def Let_def emit_def split: option.splits)

lemma process_step_inv:
  "ids_in_order p \<Longrightarrow> ids_in_order (process_step x p) \<and>
     length (detectors (process_step x p)) = length (detectors p) + (if x = Construct then 1 else 0)"
proof (cases x)
  case Construct
  assume "ids_in_order p"
  then show ?thesis using Construct
    by (simp add: ids_in_order_def split_def detector_init_id detector_init_counter)
next
  case (Destroy i)
  assume "ids_in_order p"
  then have inv: "map stream_id (detectors p) = map int [0..<length (detectors p)]"
      "read_counter (counter_class p) = int (length (detectors p))"
    by (simp_all add: ids_in_order_def)
  show ?thesis
  proof (cases "i < length (detectors p)")
    case True
    have "map stream_id ((detectors p)[i := detector_del (detectors p ! i)]) =
          (map stream_id (detectors p))[i := stream_id (detectors p ! i)]"
      by (simp add: map_update stream_id_del)
    also have "\<dots> = map stream_id (detectors p)"
      using True by (metis list_update_id nth_map)
    finally show ?thesis using True Destroy inv by (simp add: ids_in_order_def)
  next
    case False
    then show ?thesis using Destroy inv by (simp add: ids_in_order_def)
  qed
qed

lemma run_process_inv:
  "ids_in_order p \<Longrightarrow> ids_in_order (run_process xs p) \<and>
     length (detectors (run_process xs p)) = length (detectors p) + length (filter (\<lambda>x. x = Construct) xs)"
proof (induction xs arbitrary: p)
  case Nil
  then show ?case by (simp add: run_process_def)
next
  case (Cons x xs)
  from process_step_inv[OF Cons.prems, of x] have
    a: "ids_in_order (process_step x p)" and
    b: "length (detectors (process_step x p)) = length (detectors p) + (if x = Construct then 1 else 0)"
    by simp_all
  from Cons.IH[OF a] b show ?case by (simp add: run_process_def)
qed

lemma ids_in_order_start: "ids_in_order process_start"
  by (simp add: ids_in_order_def process_start_def StreamIDCounter_class_def read_counter_def)

text \<open>
  Constructions that follow one another, each \<open>get_next_id\<close> running to its end
  before the next begins, hand out the identifiers 0, 1, 2, ... in the order of construction,
  whatever destructions happen in between: none is skipped and none is handed out twice.
\<close>

lemma sequential_identifiers:
  "map stream_id (detectors (run_process xs process_start)) =
     map int [0..<length (filter (\<lambda>x. x = Construct) xs)]"
  using run_process_inv[OF ids_in_order_start, of xs]
  by (simp add: ids_in_order_def process_start_def)

lemma sequential_identifiers_example:
  "map stream_id (detectors (run_process [Construct, Construct, Destroy 0, Construct] process_start))
     = [0, 1, 2]"
  using sequential_identifiers [of "[Construct, Construct, Destroy 0, Construct]"]
  by (simp add: upt_conv_Cons del: upt_Suc)

text \<open>
  C8. Identifier allocation is meant to be thread-safe and to hand out each identifier once
  (the comment above the class: shared state to assign unique stream IDs). The class takes
  no lock: when two constructions run in two threads and both execute line 27 (read the
  counter) before either executes line 28 (increment it), both receive the identifier 0.
\<close>

theorem interleaved_constructions_both_get_zero:
  "fst (run_schedule [0, 1, 0, 1, 0, 1] [AtCall, AtCall] StreamIDCounter_class) = [Done 0, Done 0]"
  by (simp add: StreamIDCounter_class_def new_StreamIDCounter_def read_counter_def write_counter_def)

text \<open>A construction that is not interleaved with another behaves as \<open>get_next_id\<close>.\<close>

lemma ctor_thread_alone:
  "run_schedule [0, 0, 0] [AtCall] c =
     ([Done (fst (get_next_id (new_StreamIDCounter c)))], snd (get_next_id (new_StreamIDCounter c)))"
  by (simp add: get_next_id_def Let_def)


subsection \<open>Frame intake\<close>

lemma regions_loop_raises:
  "r \<in> set frame \<Longrightarrow> rect r = None \<Longrightarrow> regions_loop frame dots = Inl AttributeError"
proof (induction frame arbitrary: dots)
  case Nil
  then show ?case by simp
next
  case (Cons a frame)
  show ?case
  proof (cases "rect a")
    case None
    then show ?thesis by simp
  next
    case (Some q)
    with Cons.prems have "r \<in> set frame" by auto
    from Cons.IH[OF this Cons.prems(2)] Some show ?thesis
      by (simp add: Let_def split: prod.splits object_id_attr.splits option.splits)
  qed
qed

lemma spec_points_Nil: "spec_points [] = []"
  by (simp add: spec_points_def List.map_filter_simps)

lemma loop_axis:
  "min (max ((of_int pos + of_int extent / 2) / of_int PROCESSING_WIDTH * of_int GRID_SIZE) 0)
     (of_int GRID_SIZE) = spec_grid_axis pos extent 640"
  "min (max ((of_int pos + of_int extent / 2) / of_int PROCESSING_HEIGHT * of_int GRID_SIZE) 0)
     (of_int GRID_SIZE) = spec_grid_axis pos extent 640"
  by (simp_all only: spec_grid_axis_def PROCESSING_WIDTH_def PROCESSING_HEIGHT_def GRID_SIZE_def
      Let_def of_int_numeral)

lemma loop_axis_normal:
  "min (max ((of_int pos + of_int extent / 2) * of_int GRID_SIZE / of_int PROCESSING_WIDTH) 0)
     (of_int GRID_SIZE) = spec_grid_axis pos extent 640"
  "min (max ((of_int pos + of_int extent / 2) * of_int GRID_SIZE / of_int PROCESSING_HEIGHT) 0)
     (of_int GRID_SIZE) = spec_grid_axis pos extent 640"
  using loop_axis [of pos extent] by (simp_all only: times_divide_eq_left)

lemma spec_points_Cons:
  "spec_points (r # frame) =
     (if has_identifier r then (case rect r of None \<Rightarrow> [] | Some q \<Rightarrow> [spec_grid_point q]) else [])
     @ spec_points frame"
  by (simp add: spec_points_def List.map_filter_simps split: option.splits)

lemma regions_loop_spec:
  "\<forall>r\<in>set frame. rect r \<noteq> None \<Longrightarrow>
   regions_loop frame dots = Inr (dots @ spec_points frame)"
proof (induction frame arbitrary: dots)
  case Nil
  then show ?case by (simp add: spec_points_Nil)
next
  case (Cons a frame)
  then obtain x y w h where q: "rect a = Some (x, y, w, h)"
    by (cases "rect a") auto
  have rest: "\<forall>r\<in>set frame. rect r \<noteq> None" using Cons.prems by simp
  show ?case
  proof (cases "has_identifier a")
    case True
    then obtain i where oi: "object_id a = Callable (Some i)"
      by (auto simp: has_identifier_def split: object_id_attr.splits option.splits)
    show ?thesis
      using q oi True Cons.IH[OF rest]
      by (simp add: spec_points_Cons Let_def spec_grid_point_def loop_axis_normal)
  next
    case False
    then show ?thesis
      using q Cons.IH[OF rest]
      by (simp add: spec_points_Cons has_identifier_def split: object_id_attr.splits option.splits)
  qed
qed

lemma spec_points_empty_iff:
  "\<forall>r\<in>set frame. rect r \<noteq> None \<Longrightarrow>
   spec_points frame = [] \<longleftrightarrow> (\<forall>r\<in>set frame. \<not> has_identifier r)"
  by (induction frame) (auto simp: spec_points_Cons spec_points_Nil)

lemma length_spec_points:
  "\<forall>r\<in>set frame. rect r \<noteq> None \<Longrightarrow>
   length (spec_points frame) = length (filter has_identifier frame)"
  by (induction frame) (auto simp: spec_points_Cons spec_points_Nil)

lemma process_frame_conforming:
  "\<forall>r\<in>set frame. rect r \<noteq> None \<Longrightarrow>
   process_frame frame s =
     (Inr True,
      if spec_points frame \<noteq> [] \<and> length (message_queue s) < 100
      then s\<lparr>message_queue := message_queue s @ [detection_message (stream_id s) (spec_points frame)]\<rparr>
      else s)"
  by (simp add: process_frame_def regions_loop_spec put_nowait_def maxsize_def)






lemma example_points: "spec_points example_frame = [spec_grid_point (100, 100, 50, 50)]"
  by (simp add: example_frame_def spec_points_Cons spec_points_Nil has_identifier_def)

lemma process_frame_raises:
  "r \<in> set frame \<Longrightarrow> rect r = None \<Longrightarrow> process_frame frame s = (Inl AttributeError, s)"
  by (simp add: process_frame_def regions_loop_raises)

lemma spec_points_nonempty_iff:
  "\<forall>r\<in>set frame. rect r \<noteq> None \<Longrightarrow>
   spec_points frame \<noteq> [] \<longleftrightarrow> (\<exists>r\<in>set frame. has_identifier r)"
  using spec_points_empty_iff by blast



lemma example_frame_conforming: "\<forall>r\<in>set example_frame. rect r \<noteq> None"
  by (simp add: example_frame_def)


text \<open>
  C5 (as amended). Taking in a frame appends a detection batch to the queue if and only if
  the frame yielded at least one valid detection point and the queue holds fewer than 100
  messages; the batch then has one point per region with an identifier, at least one. A
  frame whose regions all lack an identifier leaves the queue as it was.
\<close>

theorem batch_enqueued_iff:
  "message_queue (snd (process_frame frame s)) =
     (if (\<forall>r\<in>set frame. rect r \<noteq> None) \<and> (\<exists>r\<in>set frame. has_identifier r)
         \<and> length (message_queue s) < 100
      then message_queue s @ [detection_message (stream_id s) (spec_points frame)]
      else message_queue s)
   \<and> ((\<forall>r\<in>set frame. rect r \<noteq> None) \<and> (\<exists>r\<in>set frame. has_identifier r) \<longrightarrow>
        length (spec_points frame) = length (filter has_identifier frame)
        \<and> 1 \<le> length (spec_points frame))
   \<and> ((\<forall>r\<in>set frame. \<not> has_identifier r) \<longrightarrow>
        message_queue (snd (process_frame frame s)) = message_queue s)"
proof (cases "\<forall>r\<in>set frame. rect r \<noteq> None")
  case True
  have ne: "(\<exists>r\<in>set frame. has_identifier r) \<Longrightarrow> 1 \<le> length (spec_points frame)"
    using spec_points_nonempty_iff[OF True] by (cases "spec_points frame") auto
  show ?thesis
    using True ne spec_points_nonempty_iff[OF True] length_spec_points[OF True]
    by (auto simp: process_frame_conforming)
next
  case False
  then obtain r where "r \<in> set frame" "rect r = None" by blast
  then have "process_frame frame s = (Inl AttributeError, s)" by (rule process_frame_raises)
  then have "message_queue (snd (process_frame frame s)) = message_queue s" by simp
  then show ?thesis using False by presburger
qed


text \<open>
  C10. The rectangle of a region is read before its identifier is looked at: a frame with a
  region that has no rectangle accessor makes \<open>process_frame\<close> raise AttributeError,
  with nothing queued, whether or not that region has an identifier.
\<close>

theorem rect_read_before_identifier_check:
  "r \<in> set frame \<Longrightarrow> rect r = None \<Longrightarrow> process_frame frame s = (Inl AttributeError, s)"
  by (rule process_frame_raises)

theorem rect_read_before_identifier_check_witness:
  "\<lparr>rect = None, object_id = NoAttribute\<rparr> \<in> set broken_frame
   \<and> rect \<lparr>rect = None, object_id = NoAttribute\<rparr> = None
   \<and> \<not> has_identifier \<lparr>rect = None, object_id = NoAttribute\<rparr>
   \<and> process_frame broken_frame detector0 = (Inl AttributeError, detector0)"
  using rect_read_before_identifier_check
    [of "\<lparr>rect = None, object_id = NoAttribute\<rparr>" broken_frame detector0]
  by (simp add: broken_frame_def has_identifier_def)

lemma stream_id_process_frame: "stream_id (snd (process_frame f s)) = stream_id s"
  by (simp add: process_frame_def put_nowait_def split: sum.splits)

lemma intake_all_queue:
  "\<forall>f\<in>set frames. (\<forall>r\<in>set f. rect r \<noteq> None) \<and> (\<exists>r\<in>set f. has_identifier r) \<Longrightarrow>
   length (message_queue s) \<le> 100 \<Longrightarrow>
   message_queue (intake_all frames s) =
     message_queue s @ map (\<lambda>f. detection_message (stream_id s) (spec_points f))
                          (take (100 - length (message_queue s)) frames)
   \<and> stream_id (intake_all frames s) = stream_id s"
proof (induction frames arbitrary: s)
  case Nil
  then show ?case by (simp add: intake_all_def)
next
  case (Cons f frames)
  have cf: "\<forall>r\<in>set f. rect r \<noteq> None" and vf: "\<exists>r\<in>set f. has_identifier r"
    using Cons.prems(1) by simp_all
  have ne: "spec_points f \<noteq> []" using spec_points_nonempty_iff[OF cf] vf by simp
  let ?s' = "snd (process_frame f s)"
  have step: "intake_all (f # frames) s = intake_all frames ?s'"
    by (simp add: intake_all_def)
  have rest: "\<forall>f\<in>set frames. (\<forall>r\<in>set f. rect r \<noteq> None) \<and> (\<exists>r\<in>set f. has_identifier r)"
    using Cons.prems(1) by simp
  show ?case
  proof (cases "length (message_queue s) < 100")
    case True
    have q': "message_queue ?s' = message_queue s @ [detection_message (stream_id s) (spec_points f)]"
      using True ne by (simp add: process_frame_conforming[OF cf])
    have sid: "stream_id ?s' = stream_id s" by (rule stream_id_process_frame)
    have len: "length (message_queue ?s') \<le> 100" using True q' by simp
    have t: "take (100 - length (message_queue s)) (f # frames) =
             f # take (100 - length (message_queue ?s')) frames"
    proof -
      have "100 - length (message_queue s) = Suc (99 - length (message_queue s))"
        using True by simp
      then show ?thesis using q' by simp
    qed
    show ?thesis
      using Cons.IH[OF rest len] unfolding step t by (simp add: q' sid)
  next
    case False
    then have full: "length (message_queue s) = 100" using Cons.prems(2) by simp
    have same: "?s' = s" using False by (simp add: process_frame_conforming[OF cf])
    show ?thesis
      using Cons.IH[OF rest Cons.prems(2)] unfolding step same by (simp add: full)
  qed
qed

subsection \<open>The bounded queue\<close>

lemma stop_process_frame: "stop_processing (snd (process_frame f s)) = stop_processing s"
  by (simp add: process_frame_def put_nowait_def split: sum.splits)

lemma stop_intake_all: "stop_processing (intake_all frames s) = stop_processing s"
  by (induction frames arbitrary: s) (simp_all add: intake_all_def stop_process_frame)

lemma intake_all_append: "intake_all (xs @ ys) s = intake_all ys (intake_all xs s)"
  by (simp add: intake_all_def)

text \<open>
  C3. The queue has capacity 100. When 101 frames, each with a valid region, are taken in
  while nothing is dequeued, the queue holds the messages of the first 100 in their order;
  the 101st call returns at once with True and leaves the queue as it was; and \<open>get\<close>
  hands out the message of the first frame, leaving the others in order.
\<close>

theorem queue_drops_the_101st:
  assumes valid: "\<forall>f\<in>set frames. (\<forall>r\<in>set f. rect r \<noteq> None) \<and> (\<exists>r\<in>set f. has_identifier r)"
    and len: "length frames = 101"
    and empty: "message_queue s = []"
  shows "maxsize = 100
    \<and> message_queue (intake_all frames s) =
        map (\<lambda>f. detection_message (stream_id s) (spec_points f)) (take 100 frames)
    \<and> process_frame (frames ! 100) (intake_all (take 100 frames) s) =
        (Inr True, intake_all (take 100 frames) s)
    \<and> queue_get (message_queue (intake_all frames s)) =
        Inr (detection_message (stream_id s) (spec_points (frames ! 0)),
             map (\<lambda>f. detection_message (stream_id s) (spec_points f)) (take 99 (tl frames)))"
proof -
  let ?msg = "\<lambda>f. detection_message (stream_id s) (spec_points f)"
  have q: "message_queue (intake_all frames s) = map ?msg (take 100 frames)"
    using intake_all_queue[OF valid, of s] empty by simp
  have valid100: "\<forall>f\<in>set (take 100 frames). (\<forall>r\<in>set f. rect r \<noteq> None) \<and> (\<exists>r\<in>set f. has_identifier r)"
    using valid by (meson in_set_takeD)
  have q100: "message_queue (intake_all (take 100 frames) s) = map ?msg (take 100 frames)"
    using intake_all_queue[OF valid100, of s] empty by simp
  have full: "length (message_queue (intake_all (take 100 frames) s)) = 100"
    using q100 len by simp
  have last_in: "frames ! 100 \<in> set frames" using len by simp
  then have c: "\<forall>r\<in>set (frames ! 100). rect r \<noteq> None" using valid by blast
  have rejected: "process_frame (frames ! 100) (intake_all (take 100 frames) s) =
        (Inr True, intake_all (take 100 frames) s)"
    using full by (simp add: process_frame_conforming[OF c])
  obtain f fs where fr: "frames = f # fs" using len by (cases frames) auto
  have "queue_get (message_queue (intake_all frames s)) =
        Inr (?msg (frames ! 0), map ?msg (take 99 (tl frames)))"
    unfolding q by (simp add: fr queue_get_def)
  with q rejected show ?thesis by (simp add: maxsize_def)
qed

lemma numbered_frames_valid:
  "\<forall>f\<in>set numbered_frames. (\<forall>r\<in>set f. rect r \<noteq> None) \<and> (\<exists>r\<in>set f. has_identifier r)"
  by (auto simp: numbered_frames_def has_identifier_def)

lemma numbered_frames_length: "length numbered_frames = 101"
  by (simp add: numbered_frames_def)

theorem queue_drops_the_101st_witness:
  "length numbered_frames = 101 \<and> message_queue detector0 = []
   \<and> message_queue (intake_all numbered_frames detector0) =
        map (\<lambda>f. detection_message 0 (spec_points f)) (take 100 numbered_frames)
   \<and> process_frame (numbered_frames ! 100) (intake_all (take 100 numbered_frames) detector0) =
        (Inr True, intake_all (take 100 numbered_frames) detector0)"
  using queue_drops_the_101st [OF numbered_frames_valid numbered_frames_length, of detector0]
    numbered_frames_valid numbered_frames_length
  by (simp add: detector0_simps maxsize_def)

lemma example_frame_valid:
  "\<forall>f\<in>set (replicate 100 example_frame). (\<forall>r\<in>set f. rect r \<noteq> None) \<and> (\<exists>r\<in>set f. has_identifier r)"
  by (simp add: example_frame_def has_identifier_def)

lemma saturated_queue:
  "message_queue saturated_detector =
     replicate 100 (detection_message 0 (spec_points example_frame))"
  using intake_all_queue[OF example_frame_valid, of detector0]
  by (simp add: saturated_detector_def detector0_simps)

lemma example_grid_point: "spec_grid_point (100, 100, 50, 50) = (1875 / 32, 1875 / 32)"
  by (simp add: spec_grid_point_def spec_grid_axis_def)

text \<open>
  With 100 messages queued, a frame with a valid detection point adds nothing to the queue.
\<close>

theorem full_queue_counterexample:
  "regions_loop example_frame [] = Inr [(1875 / 32, 1875 / 32)]
   \<and> length (message_queue saturated_detector) = 100
   \<and> message_queue (snd (process_frame example_frame saturated_detector)) =
       message_queue saturated_detector"
  by (simp add: regions_loop_spec[OF example_frame_conforming] example_points example_grid_point
      process_frame_conforming[OF example_frame_conforming] saturated_queue)


theorem batch_enqueued_iff_witness:
  "message_queue (snd (process_frame example_frame detector0)) =
     [detection_message 0 (spec_points example_frame)]
   \<and> length (spec_points example_frame) = 1
   \<and> filter has_identifier anonymous_frame = []
   \<and> message_queue (snd (process_frame anonymous_frame detector0)) = []"
  using batch_enqueued_iff [of example_frame detector0]
    batch_enqueued_iff [of anonymous_frame detector0]
  by (simp add: detector0_simps example_frame_def anonymous_frame_def has_identifier_def)


subsection \<open>Heartbeat\<close>

lemma dumps_heartbeat: \<open>dumps heartbeat_message = ''{"event": "heartbeat"}''\<close>
  by (simp add: heartbeat_message_def quoted_def)

lemma connected_detector_simps:
  "ws connected_detector = Some 0" "stop_processing connected_detector = False"
  "trace connected_detector = [ConnectAttempt 1, LockAcquire, Created 0, LockRelease]"
  "next_handle connected_detector = 1"
  by (simp_all add: connected_detector_def connect_websocket_def detector0_simps Let_def emit_def)

text \<open>
  C7. A tick of the supervisory loop that finds a connection alive takes the lock, sends the
  text \<open>{"event": "heartbeat"}\<close> once and releases the lock. When that send fails, the
  handle is cleared under the lock and nothing is sent again in this tick; the next tick
  then runs the connect routine.
\<close>

theorem heartbeat_on_live_handle:
  assumes "ws s = Some h" and "\<not> stop_processing s"
    and "tick_connected env" and "hb_connected env"
  shows \<open>manage_iteration env s =
      Returned
        (if hb_send_ok env
         then emit [LockAcquire, WsSend h ''{"event": "heartbeat"}'' True, LockRelease, Sleep 2] s
         else (emit [LockAcquire, WsSend h ''{"event": "heartbeat"}'' False, LockRelease,
                     LockAcquire, LockRelease, Sleep 2] s)\<lparr>ws := None\<rparr>)
    \<and> (\<not> hb_send_ok env \<longrightarrow>
          ws (run_state (manage_iteration env s)) = None
          \<and> manage_iteration env' (run_state (manage_iteration env s)) =
              (case connect_websocket (tick_connect env') (run_state (manage_iteration env s)) of
                 Pending s' \<Rightarrow> Pending s'
               | Returned s' \<Rightarrow> Returned (emit [Sleep 2] s')))\<close>
  using assms
  by (simp add: manage_iteration_def live_def send_heartbeat_def dumps_heartbeat emit_def)

theorem heartbeat_on_live_handle_witness:
  \<open>manage_iteration failing_tick connected_detector =
      Returned
        ((emit [LockAcquire, WsSend 0 ''{"event": "heartbeat"}'' False, LockRelease,
                LockAcquire, LockRelease, Sleep 2] connected_detector)\<lparr>ws := None\<rparr>)
    \<and> ws (run_state (manage_iteration failing_tick connected_detector)) = None
    \<and> new_events (run_state (manage_iteration failing_tick connected_detector))
         (run_state (manage_iteration reconnecting_tick
            (run_state (manage_iteration failing_tick connected_detector)))) =
       [ConnectAttempt 1, LockAcquire, Created 1, LockRelease, Sleep 2]\<close>
  using heartbeat_on_live_handle [of connected_detector 0 failing_tick reconnecting_tick]
  by (simp add: connected_detector_simps failing_tick_def reconnecting_tick_def
      manage_iteration_def live_def connect_websocket_def Let_def emit_def new_events_def)

subsection \<open>The attempt counter\<close>

lemma no_reset_same:
  "map_run snd (connect_loop_no_reset rs a s) = map_run snd (connect_loop rs a s)"
  by (induction rs arbitrary: a s) (simp_all add: Let_def split: conn_result.splits)

lemma connect_sleeps:
  "\<not> stop_processing s \<Longrightarrow>
   sleeps (new_events s (run_state (connect_websocket rs s))) =
     map backoff_delay [1..<Suc (failures rs)]"
proof -
  assume ns: "\<not> stop_processing s"
  from connect_loop_trace[OF ns, of rs 0 0] obtain es where
    es: "trace (snd (run_state (connect_loop rs 0 s))) = trace s @ es"
        "sleeps es = map backoff_delay [Suc 0..<Suc 0 + failures rs]"
    by blast
  have "new_events s (run_state (connect_websocket rs s)) = es"
    using es(1) by (simp add: connect_websocket_def run_state_map_run new_events_def)
  then show ?thesis using es(2) by (simp del: upt_Suc)
qed

lemma connect_sleeps_stopped:
  "stop_processing s \<Longrightarrow> sleeps (new_events s (run_state (connect_websocket rs s))) = []"
  by (simp add: connect_websocket_def connect_loop_stopped new_events_def)

lemma backoff_cap: "8 \<le> n \<Longrightarrow> backoff_delay n = 10"
proof -
  assume "8 \<le> n"
  then have "4 \<le> n div 2" by simp
  then have "(2::nat) ^ 4 \<le> 2 ^ (n div 2)" by (rule power_increasing) simp
  then show ?thesis by (simp add: backoff_delay_def)
qed

lemma backoff_first_eight: "map backoff_delay [1..<9] = [1, 2, 2, 4, 4, 8, 8, 10]"
  by (simp add: upt_conv_Cons backoff_delay_def del: upt_Suc)

text \<open>
  C9. The sleeps of one call of \<open>_connect_websocket\<close> are the backoff delays of its own
  failed attempts, counted from 1 (1, 2, 2, 4, 4, 8, 8, 10 and 10 from then on), whatever
  the detector went through before: two states with the same stop flag give the same
  sleeps. Leaving out the reset of the counter on success changes nothing in the result.
\<close>

theorem attempt_counter_is_local:
  "sleeps (new_events s (run_state (connect_websocket rs s))) =
     (if stop_processing s then [] else map backoff_delay [1..<Suc (failures rs)])
   \<and> map backoff_delay [1..<9] = [1, 2, 2, 4, 4, 8, 8, 10]
   \<and> (\<forall>n\<ge>8. backoff_delay n = 10)
   \<and> connect_websocket rs s = map_run snd (connect_loop_no_reset rs 0 s)
   \<and> (stop_processing s' = stop_processing s \<longrightarrow>
        sleeps (new_events s' (run_state (connect_websocket rs s'))) =
        sleeps (new_events s (run_state (connect_websocket rs s))))"
proof (intro conjI allI impI)
  show "sleeps (new_events s (run_state (connect_websocket rs s))) =
     (if stop_processing s then [] else map backoff_delay [1..<Suc (failures rs)])"
  proof (cases "stop_processing s")
    case True
    then show ?thesis using connect_sleeps_stopped[OF True, of rs] by simp
  next
    case False
    then show ?thesis using connect_sleeps[OF False, of rs] by simp
  qed
next
  show "map backoff_delay [1..<9] = [1, 2, 2, 4, 4, 8, 8, 10]"
    by (rule backoff_first_eight)
next
  fix n :: nat
  assume "8 \<le> n"
  then show "backoff_delay n = 10" by (rule backoff_cap)
next
  show "connect_websocket rs s = map_run snd (connect_loop_no_reset rs 0 s)"
    by (simp only: connect_websocket_def no_reset_same)
next
  assume same: "stop_processing s' = stop_processing s"
  show "sleeps (new_events s' (run_state (connect_websocket rs s'))) =
        sleeps (new_events s (run_state (connect_websocket rs s)))"
  proof (cases "stop_processing s")
    case True
    with same have "stop_processing s'" by simp
    from connect_sleeps_stopped[OF this, of rs] connect_sleeps_stopped[OF True, of rs]
    show ?thesis by simp
  next
    case False
    with same have "\<not> stop_processing s'" by simp
    from connect_sleeps[OF this, of rs] connect_sleeps[OF False, of rs]
    show ?thesis by simp
  qed
qed

theorem attempt_counter_is_local_witness:
  "sleeps (new_events detector0
      (run_state (connect_websocket [CreateFails, CreateFails, CreateFails, Succeeds] detector0))) = [1, 2, 2]
   \<and> backoff_delay 9 = 10
   \<and> sleeps (new_events connected_detector
      (run_state (connect_websocket [CreateFails, CreateFails, CreateFails, Succeeds] connected_detector)))
      = [1, 2, 2]"
proof -
  note w = attempt_counter_is_local
    [of detector0 "[CreateFails, CreateFails, CreateFails, Succeeds]" connected_detector]
  have a: "sleeps (new_events detector0
      (run_state (connect_websocket [CreateFails, CreateFails, CreateFails, Succeeds] detector0))) = [1, 2, 2]"
    using w[THEN conjunct1]
    by (simp add: detector0_simps failures_def upt_conv_Cons backoff_delay_def del: upt_Suc)
  have b: "backoff_delay 9 = 10"
    using w[THEN conjunct2, THEN conjunct2, THEN conjunct1] by simp
  have c: "stop_processing connected_detector = stop_processing detector0"
    by (simp add: detector0_simps connected_detector_simps)
  have d: "sleeps (new_events connected_detector
      (run_state (connect_websocket [CreateFails, CreateFails, CreateFails, Succeeds] connected_detector)))
      = [1, 2, 2]"
    using w[THEN conjunct2, THEN conjunct2, THEN conjunct2, THEN conjunct2] c a by simp
  from a b d show ?thesis by simp
qed

subsection \<open>No send on a handle that failed\<close>








lemma quiet_events:
  "after_failure g [ConnectAttempt a, LockAcquire] = g"
  "after_failure g [LockRelease, Sleep d] = g"
  "after_failure g [LockRelease] = g"
  "after_failure g [Sleep d] = g"
  "after_failure g [Dropped] = g"
  by simp_all







lemma next_handle_emit: "next_handle (emit es s) = next_handle s"
  by (simp add: emit_def)






















end
